theory Spec2Isabelle
  imports Main "HOL-Library.List_Lexorder" "HOL-Library.Char_ord" "HOL-Library.AList"
    "HOL-Library.Multiset"
begin

text \<open>
  A model of \<open>scripts/build_rag.py\<close>, the script that cuts the JSON files of a data
  directory into chunks, records them in a SQLite table and keeps a Pinecone index in
  step: the chunker, the document extractor, the scan of the directory, the state
  store, the diff, the two remote clients and \<open>main\<close>. The definitions come first, each
  after the function of the script it follows; the properties come after them.
\<close>

section \<open>Python strings and slices\<close>

text \<open>
  A Python \<open>str\<close> is modelled as a \<open>string\<close>; one \<open>char\<close> stands for one code point
  below 256, so \<open>length\<close> is Python's \<open>len\<close> on such texts. \<open>str.isspace\<close> on that
  range holds for the code points 9 to 13, 28 to 32, 133 and 160.
\<close>

definition is_space :: "char \<Rightarrow> bool" where
  "is_space c =
     (let n = (of_char c :: nat)
      in (9 \<le> n \<and> n \<le> 13) \<or> (28 \<le> n \<and> n \<le> 32) \<or> n = 133 \<or> n = 160)"

text \<open>\<open>s.strip()\<close>: leading and trailing whitespace removed.\<close>

definition strip :: "string \<Rightarrow> string" where
  "strip s = rev (dropWhile is_space (rev (dropWhile is_space s)))"

text \<open>
  \<open>xs[start:end]\<close> with Python's rules: a negative bound counts from the end, and both
  bounds are clamped to the sequence.
\<close>

definition py_slice :: "'a list \<Rightarrow> int \<Rightarrow> int \<Rightarrow> 'a list" where
  "py_slice xs start end =
     (let n = int (length xs);
          lo = (if start < 0 then max (start + n) 0 else min start n);
          hi = (if end < 0 then max (end + n) 0 else min end n)
      in take (nat (hi - lo)) (drop (nat lo) xs))"

section \<open>Chunker: \<open>split_text\<close>\<close>

text \<open>
  The \<open>while start < text_len\<close> loop of \<open>split_text\<close>, with the loop variables
  \<open>chunks\<close>, \<open>start\<close> and \<open>end\<close> as arguments. The loop is not known to end, so the result
  is an option: \<open>None\<close> is the run that never leaves the loop.
\<close>

partial_function (option) split_loop ::
  "string \<Rightarrow> int \<Rightarrow> int \<Rightarrow> string list \<Rightarrow> int \<Rightarrow> int \<Rightarrow> string list option" where
  "split_loop text chunk_size overlap chunks start end =
     (let text_len = int (length text) in
      if start < text_len then
        (let chunk = py_slice text start end;
             chunks' = chunks @ [strip chunk]
         in if end \<ge> text_len then Some chunks'
            else (let start' = max 0 (end - overlap);
                      end' = min text_len (start' + chunk_size)
                  in split_loop text chunk_size overlap chunks' start' end'))
      else Some chunks)"

definition split_text :: "string \<Rightarrow> int \<Rightarrow> int \<Rightarrow> string list option" where
  "split_text text chunk_size overlap =
     (if int (length text) \<le> chunk_size then Some [strip text]
      else map_option (filter (\<lambda>chunk. chunk \<noteq> []))
             (split_loop text chunk_size overlap [] 0 chunk_size))"

section \<open>Parsed JSON payloads and their rendering\<close>

text \<open>
  The value \<open>json.loads\<close> returns. A float is kept as the text of its \<open>repr\<close> (for a finite
  one) or as one of the three non-finite values. A \<open>JDict\<close> holds the items of the Python
  dict in insertion order, with distinct keys.
\<close>

datatype pyfloat = Finite string | PosInf | NegInf | NaN

datatype scalar = SNull | SBool bool | SInt int | SFloat pyfloat | SStr string

datatype json = JScalar scalar | JList "json list" | JDict "(string \<times> json) list"

fun str_of_nat :: "nat \<Rightarrow> string" where
  "str_of_nat n =
     (if n < 10 then [''0123456789'' ! n]
      else str_of_nat (n div 10) @ [''0123456789'' ! (n mod 10)])"

declare str_of_nat.simps [simp del]

definition str_of_int :: "int \<Rightarrow> string" where
  "str_of_int i = (if i < 0 then CHR ''-'' # str_of_nat (nat (- i)) else str_of_nat (nat i))"

text \<open>\<open>str(value)\<close> for a value that is neither a dict nor a list.\<close>

fun py_str :: "scalar \<Rightarrow> string" where
  "py_str SNull = ''None''"
| "py_str (SBool b) = (if b then ''True'' else ''False'')"
| "py_str (SInt i) = str_of_int i"
| "py_str (SFloat (Finite r)) = r"
| "py_str (SFloat PosInf) = ''inf''"
| "py_str (SFloat NegInf) = ''-inf''"
| "py_str (SFloat NaN) = ''nan''"
| "py_str (SStr s) = s"

text \<open>
  \<open>json.dumps(entry, ensure_ascii=False, indent=2)\<close> of the standard library: a string is
  quoted, with the backslash, the double quote and the control characters below 32
  escaped; a non-empty list or dict puts each item on a line of its own, indented by two
  spaces per nesting level, with \<open>,\<close> between items and \<open>: \<close> after a key.
\<close>

definition escape_char :: "char \<Rightarrow> string" where
  "escape_char c =
     (if c = CHR 0x5C then [CHR 0x5C, CHR 0x5C]
      else if c = CHR 0x22 then [CHR 0x5C, CHR 0x22]
      else if c = CHR 0x08 then [CHR 0x5C, CHR ''b'']
      else if c = CHR 0x0C then [CHR 0x5C, CHR ''f'']
      else if c = CHR 0x0A then [CHR 0x5C, CHR ''n'']
      else if c = CHR 0x0D then [CHR 0x5C, CHR ''r'']
      else if c = CHR 0x09 then [CHR 0x5C, CHR ''t'']
      else if (of_char c :: nat) < 32
        then CHR 0x5C # ''u00'' @ [''0123456789abcdef'' ! (of_char c div 16),
                                   ''0123456789abcdef'' ! (of_char c mod 16)]
      else [c])"

definition encode_basestring :: "string \<Rightarrow> string" where
  "encode_basestring s = CHR 0x22 # concat (map escape_char s) @ [CHR 0x22]"

definition newline_indent :: "nat \<Rightarrow> string" where
  "newline_indent level = CHR 0x0A # replicate (2 * level) (CHR '' '')"

fun join :: "string \<Rightarrow> string list \<Rightarrow> string" where
  "join sep [] = []"
| "join sep [x] = x"
| "join sep (x # y # ys) = x @ sep @ join sep (y # ys)"

fun dumps_scalar :: "scalar \<Rightarrow> string" where
  "dumps_scalar SNull = ''null''"
| "dumps_scalar (SBool b) = (if b then ''true'' else ''false'')"
| "dumps_scalar (SInt i) = str_of_int i"
| "dumps_scalar (SFloat (Finite r)) = r"
| "dumps_scalar (SFloat PosInf) = ''Infinity''"
| "dumps_scalar (SFloat NegInf) = ''-Infinity''"
| "dumps_scalar (SFloat NaN) = ''NaN''"
| "dumps_scalar (SStr s) = encode_basestring s"

fun dumps_at :: "nat \<Rightarrow> json \<Rightarrow> string"
  and dumps_items :: "nat \<Rightarrow> json list \<Rightarrow> string list"
  and dumps_members :: "nat \<Rightarrow> (string \<times> json) list \<Rightarrow> string list" where
  "dumps_at level (JScalar v) = dumps_scalar v"
| "dumps_at level (JList xs) =
     (if xs = [] then ''[]''
      else ''['' @ newline_indent (level + 1)
           @ join ('','' @ newline_indent (level + 1)) (dumps_items (level + 1) xs)
           @ newline_indent level @ '']'')"
| "dumps_at level (JDict kvs) =
     (if kvs = [] then ''{}''
      else ''{'' @ newline_indent (level + 1)
           @ join ('','' @ newline_indent (level + 1)) (dumps_members (level + 1) kvs)
           @ newline_indent level @ ''}'')"
| "dumps_items level [] = []"
| "dumps_items level (x # xs) = dumps_at level x # dumps_items level xs"
| "dumps_members level [] = []"
| "dumps_members level ((k, v) # kvs) =
     (encode_basestring k @ '': '' @ dumps_at level v) # dumps_members level kvs"

definition json_dumps :: "json \<Rightarrow> string" where
  "json_dumps entry = dumps_at 0 entry"

section \<open>Document Extractor\<close>

fun render_body :: "json \<Rightarrow> string" where
  "render_body (JDict kvs) = json_dumps (JDict kvs)"
| "render_body (JList xs) = json_dumps (JList xs)"
| "render_body (JScalar v) = py_str v"

text \<open>
  \<open>guess_label\<close>: the first of the keys, in this order, whose value in the dict is a string
  that is not empty after \<open>strip\<close>; that value stripped.
\<close>

fun first_label :: "(string \<times> json) list \<Rightarrow> string list \<Rightarrow> string option" where
  "first_label entry [] = None"
| "first_label entry (key # keys) =
     (case map_of entry key of
        Some (JScalar (SStr v)) \<Rightarrow>
          if strip v \<noteq> [] then Some (strip v) else first_label entry keys
      | _ \<Rightarrow> first_label entry keys)"

fun guess_label :: "json \<Rightarrow> string option" where
  "guess_label (JDict entry) =
     first_label entry [''title'', ''company'', ''name'', ''question'', ''label'', ''role'']"
| "guess_label _ = None"

definition is_alnum :: "char \<Rightarrow> bool" where
  "is_alnum c =
     (c \<in> set ''abcdefghijklmnopqrstuvwxyzABCDEFGHIJKLMNOPQRSTUVWXYZ0123456789'')"

text \<open>\<open>re.sub(r"[^a-zA-Z0-9]+", "-", value)\<close>: each maximal run of other characters
  becomes one hyphen.\<close>

function sub_non_alnum :: "string \<Rightarrow> string" where
  "sub_non_alnum [] = []"
| "sub_non_alnum (c # cs) =
     (if is_alnum c then c # sub_non_alnum cs
      else CHR ''-'' # sub_non_alnum (dropWhile (\<lambda>d. \<not> is_alnum d) cs))"
  by pat_completeness auto
termination
  by (relation "measure length") (auto intro: le_imp_less_Suc length_dropWhile_le)

definition strip_hyphens :: "string \<Rightarrow> string" where
  "strip_hyphens s =
     rev (dropWhile (\<lambda>c. c = CHR ''-'') (rev (dropWhile (\<lambda>c. c = CHR ''-'') s)))"

text \<open>\<open>str.lower\<close>, on a string of ASCII letters, digits and hyphens.\<close>

definition lower_char :: "char \<Rightarrow> char" where
  "lower_char c =
     (case map_of (zip ''ABCDEFGHIJKLMNOPQRSTUVWXYZ'' ''abcdefghijklmnopqrstuvwxyz'') c of
        Some l \<Rightarrow> l
      | None \<Rightarrow> c)"

definition slugify :: "string \<Rightarrow> string" where
  "slugify v =
     (let slug = map lower_char (strip_hyphens (sub_non_alnum v))
      in if slug \<noteq> [] then slug else ''entry'')"

text \<open>\<open>generate_documents\<close> yields the triples \<open>(base_id, topic, text)\<close>; the model
  returns them as a list, in the order of the yields.\<close>

fun generate_documents :: "string \<Rightarrow> json \<Rightarrow> (string \<times> string \<times> string) list" where
  "generate_documents source (JList payload) =
     map (\<lambda>(idx, entry).
            let topic = (case guess_label entry of
                           Some label \<Rightarrow> label
                         | None \<Rightarrow> source @ ''-'' @ str_of_nat idx);
                body = render_body entry;
                base_id = source @ ''-'' @ slugify topic;
                text = strip (''Source: '' @ source @ [CHR 0x0A] @ ''Topic: '' @ topic
                              @ [CHR 0x0A, CHR 0x0A] @ body)
            in (base_id, topic, text))
         (enumerate 1 payload)"
| "generate_documents source (JDict payload) =
     map (\<lambda>(key, v).
            let topic = key;
                body = render_body v;
                base_id = source @ ''-'' @ slugify topic;
                text = strip (''Source: '' @ source @ [CHR 0x0A] @ ''Topic: '' @ topic
                              @ [CHR 0x0A, CHR 0x0A] @ body)
            in (base_id, topic, text))
         payload"
| "generate_documents source (JScalar payload) =
     [(source @ ''-all'', source,
       ''Source: '' @ source @ [CHR 0x0A, CHR 0x0A] @ py_str payload)]"

section \<open>Errors\<close>

text \<open>
  Every way a run stops without finishing: the \<open>SystemExit\<close> calls of the script, the
  exceptions of the libraries it calls and, as \<open>Hang\<close>, the run that never returns because
  the split loop does not end.
\<close>

datatype error =
    MissingOpenAIKey
  | MissingPineconeKey
  | MissingPineconeHost
  | DataDirMissing
  | InvalidJSON
  | EmbeddingFailed int
  | UpsertFailed int
  | DeleteFailed int
  | MalformedResponse
  | ValueError
  | IntegrityError
  | Hang

section \<open>Scan: \<open>build_chunks\<close>\<close>

record document_chunk =
  chunk_id :: string
  source :: string
  topic :: string
  body :: string
  checksum :: string

text \<open>
  The data directory is the list of its entries in the order the file system enumerates
  them: the file name, and the value \<open>json.loads\<close> gives for the file's text, or \<open>None\<close>
  when reading or parsing the file raises. Paths are POSIX paths: \<open>glob("*.json")\<close> keeps
  the names that end in \<open>.json\<close>, \<open>sorted\<close> orders the paths of one directory by their
  names, character by character, and \<open>Path.stem\<close> drops the last suffix, which is the part
  from the last dot when that dot is neither the first nor the last character of the name.
\<close>

type_synonym data_dir = "(string \<times> json option) list"

definition matches_json :: "string \<Rightarrow> bool" where
  "matches_json name = (5 \<le> length name \<and> drop (length name - 5) name = ''.json'')"

definition path_stem :: "string \<Rightarrow> string" where
  "path_stem name =
     (let ext = length (takeWhile (\<lambda>c. c \<noteq> CHR ''.'') (rev name))
      in if CHR ''.'' \<in> set name \<and> 0 < ext \<and> ext + 1 < length name
         then take (length name - ext - 1) name
         else name)"

text \<open>
  The checksum is \<open>hashlib.sha256(chunk_text.encode("utf-8")).hexdigest()\<close>; the hash is
  the parameter \<open>H\<close> of the model, a function from the chunk text to the digest text.
  The three nested \<open>for\<close> loops of \<open>build_chunks\<close> are \<open>files_loop\<close>, \<open>documents_loop\<close> and
  the \<open>map\<close> over the enumerated pieces.
\<close>

fun documents_loop ::
  "(string \<Rightarrow> string) \<Rightarrow> int \<Rightarrow> int \<Rightarrow> string \<Rightarrow> (string \<times> string \<times> string) list
     \<Rightarrow> document_chunk list \<Rightarrow> error + document_chunk list" where
  "documents_loop H chunk_size overlap name [] all_chunks = Inr all_chunks"
| "documents_loop H chunk_size overlap name ((base_id, doc_topic, text) # docs) all_chunks =
     (case split_text text chunk_size overlap of
        None \<Rightarrow> Inl Hang
      | Some pieces \<Rightarrow>
          documents_loop H chunk_size overlap name docs
            (all_chunks @
             map (\<lambda>(idx, chunk_text).
                    \<lparr>chunk_id = base_id @ '':'' @ str_of_nat idx,
                     source = name,
                     topic = doc_topic,
                     body = chunk_text,
                     checksum = H chunk_text\<rparr>)
                 (enumerate 1 pieces)))"

fun files_loop ::
  "(string \<Rightarrow> string) \<Rightarrow> int \<Rightarrow> int \<Rightarrow> data_dir \<Rightarrow> document_chunk list
     \<Rightarrow> error + document_chunk list" where
  "files_loop H chunk_size overlap [] all_chunks = Inr all_chunks"
| "files_loop H chunk_size overlap ((name, content) # files) all_chunks =
     (case content of
        None \<Rightarrow> Inl InvalidJSON
      | Some payload \<Rightarrow>
          (case documents_loop H chunk_size overlap name
                  (generate_documents (path_stem name) payload) all_chunks of
             Inl e \<Rightarrow> Inl e
           | Inr all_chunks' \<Rightarrow> files_loop H chunk_size overlap files all_chunks'))"

text \<open>\<open>data_dir\<close> is \<open>None\<close> when the directory does not exist.\<close>

definition build_chunks ::
  "(string \<Rightarrow> string) \<Rightarrow> data_dir option \<Rightarrow> int \<Rightarrow> int \<Rightarrow> error + document_chunk list" where
  "build_chunks H data_dir chunk_size overlap =
     (case data_dir of
        None \<Rightarrow> Inl DataDirMissing
      | Some entries \<Rightarrow>
          files_loop H chunk_size overlap
            (sort_key fst (filter (\<lambda>(name, content). matches_json name) entries)) [])"

section \<open>State Store\<close>

text \<open>
  The table \<open>rag_chunks\<close> is the list of its rows; the store is \<open>None\<close> when the SQLite file
  or the table is absent. The column \<open>id\<close> is the primary key: an \<open>INSERT\<close> of an id that
  the table holds raises \<open>sqlite3.IntegrityError\<close>.
\<close>

record row =
  row_id :: string
  row_source :: string
  row_topic :: string
  row_body :: string
  row_checksum :: string
  row_updated_at :: string

type_synonym store = "row list option"

text \<open>A Python dict of strings is an association list in insertion order; storing under
  a key that is present replaces the value in place (\<open>AList.update\<close>).\<close>

definition load_existing_rows :: "store \<Rightarrow> (string \<times> string) list" where
  "load_existing_rows st =
     (case st of
        None \<Rightarrow> []
      | Some rows \<Rightarrow> fold (\<lambda>r d. AList.update (row_id r) (row_checksum r) d) rows [])"

text \<open>\<open>executemany\<close> of the \<open>INSERT\<close>: row after row, \<open>None\<close> at the first id already in
  the table.\<close>

fun insert_rows :: "row list \<Rightarrow> row list \<Rightarrow> row list option" where
  "insert_rows table [] = Some table"
| "insert_rows table (r # rs) =
     (if row_id r \<in> set (map row_id table) then None
      else insert_rows (table @ [r]) rs)"

definition row_of :: "string \<Rightarrow> document_chunk \<Rightarrow> row" where
  "row_of now chunk =
     \<lparr>row_id = chunk_id chunk, row_source = source chunk, row_topic = topic chunk,
      row_body = body chunk, row_checksum = checksum chunk, row_updated_at = now\<rparr>"

text \<open>
  \<open>persist_sqlite\<close>: \<open>CREATE TABLE IF NOT EXISTS\<close> runs outside the transaction; the
  \<open>DELETE\<close> and the inserts are one transaction, rolled back when an insert raises. \<open>now\<close>
  is the clock's reading.
\<close>

definition persist_sqlite :: "string \<Rightarrow> store \<Rightarrow> document_chunk list \<Rightarrow> (error + unit) \<times> store" where
  "persist_sqlite now st chunks =
     (let table = (case st of None \<Rightarrow> [] | Some rows \<Rightarrow> rows)
      in case insert_rows [] (map (row_of now) chunks) of
           None \<Rightarrow> (Inl IntegrityError, Some table)
         | Some table' \<Rightarrow> (Inr (), Some table'))"

section \<open>Diff Engine\<close>

text \<open>The two lists \<open>main\<close> computes from the loaded rows and the fresh chunks.\<close>

definition to_delete :: "(string \<times> string) list \<Rightarrow> document_chunk list \<Rightarrow> string list" where
  "to_delete existing_rows chunks =
     sorted_list_of_set (set (map fst existing_rows) - set (map chunk_id chunks))"

definition to_refresh ::
  "(string \<times> string) list \<Rightarrow> document_chunk list \<Rightarrow> document_chunk list" where
  "to_refresh existing_rows chunks =
     filter (\<lambda>chunk. map_of existing_rows (chunk_id chunk) \<noteq> Some (checksum chunk)) chunks"

section \<open>Remote services\<close>

text \<open>
  A request is the JSON body posted to one of the three endpoints; the \<open>namespace\<close> key
  is present when the client's namespace is a non-empty string. A response is its status
  code and, for the embedding service, the vectors of \<open>response.json()["data"]\<close>
  (\<open>None\<close> when the body has no such list). The type \<open>'v\<close> of a vector is left open;
  the URL and the headers of a request, built from the host and the API keys, are left out.
  The services are a function from the calls made so far and the request to the response,
  and every function that posts a request takes the log of calls and returns it extended.
\<close>

record metadata =
  md_source :: string
  md_topic :: string
  md_checksum :: string

record 'v vector_record =
  vec_id :: string
  vec_values :: 'v
  vec_metadata :: metadata

datatype 'v request =
    EmbeddingsRequest string "string list"
  | UpsertRequest "'v vector_record list" "string option"
  | DeleteRequest "string list" "string option"

record 'v response =
  status_code :: int
  data :: "'v list option"

type_synonym 'v call = "'v request \<times> 'v response"

type_synonym 'v remote = "'v call list \<Rightarrow> 'v request \<Rightarrow> 'v response"

text \<open>The truth value of an \<open>Optional[str]\<close>: \<open>None\<close> and the empty string are false.\<close>

definition truthy :: "string option \<Rightarrow> bool" where
  "truthy s = (case s of None \<Rightarrow> False | Some v \<Rightarrow> v \<noteq> [])"

definition namespace_key :: "string option \<Rightarrow> string option" where
  "namespace_key ns = (if truthy ns then ns else None)"

text \<open>
  \<open>range(0, stop, step)\<close> for \<open>stop = len(sequence)\<close>: a zero step raises \<open>ValueError\<close>, a
  negative step gives the empty range.
\<close>

definition py_range0 :: "nat \<Rightarrow> int \<Rightarrow> error + int list" where
  "py_range0 stop step =
     (if step = 0 then Inl ValueError
      else if step < 0 then Inr []
      else Inr (map (\<lambda>k. int k * step) [0..<nat ((int stop + step - 1) div step)]))"

definition chunked :: "'a list \<Rightarrow> int \<Rightarrow> error + 'a list list" where
  "chunked sequence sz =
     (case py_range0 (length sequence) sz of
        Inl e \<Rightarrow> Inl e
      | Inr starts \<Rightarrow> Inr (map (\<lambda>start. py_slice sequence start (start + sz)) starts))"

subsection \<open>Embedding Client\<close>

record openai_embeddings =
  emb_model :: string
  emb_batch_size :: int

fun embed_loop ::
  "'v remote \<Rightarrow> openai_embeddings \<Rightarrow> string list list \<Rightarrow> 'v list \<Rightarrow> 'v call list
     \<Rightarrow> (error + 'v list) \<times> 'v call list" where
  "embed_loop srv self [] vectors log = (Inr vectors, log)"
| "embed_loop srv self (batch # batches) vectors log =
     (let request = EmbeddingsRequest (emb_model self) batch;
          response = srv log request;
          log' = log @ [(request, response)]
      in if status_code response \<ge> 300
           then (Inl (EmbeddingFailed (status_code response)), log')
         else (case data response of
                 None \<Rightarrow> (Inl MalformedResponse, log')
               | Some vs \<Rightarrow> embed_loop srv self batches (vectors @ vs) log'))"

definition embed ::
  "'v remote \<Rightarrow> openai_embeddings \<Rightarrow> string list \<Rightarrow> 'v call list
     \<Rightarrow> (error + 'v list) \<times> 'v call list" where
  "embed srv self texts log =
     (case chunked texts (emb_batch_size self) of
        Inl e \<Rightarrow> (Inl e, log)
      | Inr batches \<Rightarrow> embed_loop srv self batches [] log)"

subsection \<open>Index Client\<close>

record pinecone_client =
  namespace :: "string option"
  batch_size :: int

fun upsert_loop ::
  "'v remote \<Rightarrow> pinecone_client \<Rightarrow> 'v vector_record list list \<Rightarrow> 'v call list
     \<Rightarrow> (error + unit) \<times> 'v call list" where
  "upsert_loop srv self [] log = (Inr (), log)"
| "upsert_loop srv self (batch # batches) log =
     (let request = UpsertRequest batch (namespace_key (namespace self));
          response = srv log request;
          log' = log @ [(request, response)]
      in if status_code response \<ge> 300
           then (Inl (UpsertFailed (status_code response)), log')
         else upsert_loop srv self batches log')"

definition upsert ::
  "'v remote \<Rightarrow> pinecone_client \<Rightarrow> 'v vector_record list \<Rightarrow> 'v call list
     \<Rightarrow> (error + unit) \<times> 'v call list" where
  "upsert srv self vectors log =
     (case chunked vectors (batch_size self) of
        Inl e \<Rightarrow> (Inl e, log)
      | Inr batches \<Rightarrow> upsert_loop srv self batches log)"

definition delete ::
  "'v remote \<Rightarrow> pinecone_client \<Rightarrow> string list \<Rightarrow> 'v call list
     \<Rightarrow> (error + unit) \<times> 'v call list" where
  "delete srv self ids log =
     (let request = DeleteRequest ids (namespace_key (namespace self));
          response = srv log request;
          log' = log @ [(request, response)]
      in if status_code response \<ge> 300
           then (Inl (DeleteFailed (status_code response)), log')
         else (Inr (), log'))"

definition upsert_chunks ::
  "'v remote \<Rightarrow> pinecone_client \<Rightarrow> openai_embeddings option \<Rightarrow> document_chunk list
     \<Rightarrow> 'v call list \<Rightarrow> (error + unit) \<times> 'v call list" where
  "upsert_chunks srv pinecone embeddings chunks log =
     (case embeddings of
        None \<Rightarrow> (Inr (), log)
      | Some client \<Rightarrow>
          if chunks = [] then (Inr (), log)
          else (case embed srv client (map body chunks) log of
                  (Inl e, log') \<Rightarrow> (Inl e, log')
                | (Inr vectors, log') \<Rightarrow>
                    upsert srv pinecone
                      (map (\<lambda>(chunk, vector).
                              \<lparr>vec_id = chunk_id chunk,
                               vec_values = vector,
                               vec_metadata =
                                 \<lparr>md_source = source chunk, md_topic = topic chunk,
                                  md_checksum = checksum chunk\<rparr>\<rparr>)
                           (zip chunks vectors))
                      log'))"

section \<open>Sync Orchestrator: \<open>main\<close>\<close>

text \<open>
  The parsed command line and the environment variables. The paths \<open>--data-dir\<close> and
  \<open>--sqlite-path\<close> do not appear: the directory and the store they name are arguments of
  \<open>main\<close>. A run is what \<open>main\<close> leaves behind: how it ended, the store, and the remote
  calls it made, in order.
\<close>

record args =
  args_pinecone_host :: "string option"
  args_pinecone_namespace :: "string option"
  args_pinecone_batch_size :: int
  args_chunk_size :: int
  args_chunk_overlap :: int
  args_skip_pinecone :: bool
  args_embedding_model :: string

record env =
  OPENAI_API_KEY :: "string option"
  PINECONE_API_KEY :: "string option"

record 'v run =
  outcome :: "error + unit"
  store_after :: store
  calls :: "'v call list"

definition aborted :: "error \<Rightarrow> store \<Rightarrow> 'v call list \<Rightarrow> 'v run" where
  "aborted e st log = \<lparr>outcome = Inl e, store_after = st, calls = log\<rparr>"

text \<open>The remote part of \<open>main\<close>, the block under \<open>if pinecone:\<close>.\<close>

definition sync_pinecone ::
  "'v remote \<Rightarrow> pinecone_client \<Rightarrow> openai_embeddings \<Rightarrow> document_chunk list \<Rightarrow> string list
     \<Rightarrow> (error + unit) \<times> 'v call list" where
  "sync_pinecone srv pinecone embeddings_client refresh stale =
     (case upsert_chunks srv pinecone (Some embeddings_client) refresh [] of
        (Inl e, log) \<Rightarrow> (Inl e, log)
      | (Inr u, log) \<Rightarrow>
          if stale \<noteq> [] then delete srv pinecone stale log else (Inr (), log))"

definition main ::
  "args \<Rightarrow> env \<Rightarrow> (string \<Rightarrow> string) \<Rightarrow> 'v remote \<Rightarrow> string \<Rightarrow> data_dir option \<Rightarrow> store
     \<Rightarrow> 'v run" where
  "main a ev H srv now data_dir st =
     (if \<not> truthy (OPENAI_API_KEY ev) \<and> \<not> args_skip_pinecone a
        then aborted MissingOpenAIKey st []
      else if \<not> args_skip_pinecone a \<and> \<not> truthy (PINECONE_API_KEY ev)
        then aborted MissingPineconeKey st []
      else if \<not> args_skip_pinecone a \<and> \<not> truthy (args_pinecone_host a)
        then aborted MissingPineconeHost st []
      else
        (case build_chunks H data_dir (args_chunk_size a) (args_chunk_overlap a) of
           Inl e \<Rightarrow> aborted e st []
         | Inr chunks \<Rightarrow>
             (let existing_rows = load_existing_rows st;
                  stale = to_delete existing_rows chunks;
                  refresh = to_refresh existing_rows chunks;
                  embeddings_client =
                    \<lparr>emb_model = args_embedding_model a, emb_batch_size = 32\<rparr>;
                  pinecone =
                    \<lparr>namespace = args_pinecone_namespace a,
                     batch_size = args_pinecone_batch_size a\<rparr>
              in case (if args_skip_pinecone a then (Inr (), [])
                       else sync_pinecone srv pinecone embeddings_client refresh stale) of
                   (Inl e, log) \<Rightarrow> aborted e st log
                 | (Inr u, log) \<Rightarrow>
                     (case persist_sqlite now st chunks of
                        (result, st') \<Rightarrow>
                          \<lparr>outcome = result, store_after = st', calls = log\<rparr>))))"

text \<open>The errors with which a run stops on a response whose status is 300 or more.\<close>

fun remote_failure :: "error \<Rightarrow> bool" where
  "remote_failure (EmbeddingFailed s) = (300 \<le> s)"
| "remote_failure (UpsertFailed s) = (300 \<le> s)"
| "remote_failure (DeleteFailed s) = (300 \<le> s)"
| "remote_failure _ = False"

section \<open>The chunker\<close>

subsection \<open>When the split loop ends\<close>

text \<open>
  With a positive \<open>chunk_size\<close>, an \<open>overlap\<close> that is not below it and a text longer than
  \<open>chunk_size\<close>, the second window is the first one again: \<open>start\<close> is \<open>max(0, end - overlap)
  = 0\<close> and \<open>end\<close> is \<open>chunk_size\<close>, for ever.
\<close>

lemma split_loop_stuck_aux:
  assumes "split_loop text chunk_size overlap chunks start end = Some y"
  shows "\<not> (0 < chunk_size \<and> chunk_size \<le> overlap \<and> chunk_size < int (length text)
        \<and> start = 0 \<and> end = chunk_size)"
proof (rule split_loop.raw_induct[where P = "\<lambda>t c ov cs s e y.
         \<not> (0 < c \<and> c \<le> ov \<and> c < int (length t) \<and> s = 0 \<and> e = c)", OF _ assms])
  fix loop t c ov cs s e y
  assume IH: "\<And>t c ov cs s e y. loop t c ov cs s e = Some y \<Longrightarrow>
                \<not> (0 < c \<and> c \<le> ov \<and> c < int (length t) \<and> s = 0 \<and> e = c)"
    and step: "(let text_len = int (length t) in
      if s < text_len then
        (let chunk = py_slice t s e;
             chunks' = cs @ [strip chunk]
         in if e \<ge> text_len then Some chunks'
            else (let start' = max 0 (e - ov);
                      end' = min text_len (start' + c)
                  in loop t c ov chunks' start' end'))
      else Some cs) = Some y"
  show "\<not> (0 < c \<and> c \<le> ov \<and> c < int (length t) \<and> s = 0 \<and> e = c)"
  proof
    assume a: "0 < c \<and> c \<le> ov \<and> c < int (length t) \<and> s = 0 \<and> e = c"
    then have m: "max 0 (e - ov) = 0" "min (int (length t)) (0 + c) = c"
      "s < int (length t)" "\<not> int (length t) \<le> e"
      by auto
    from step m have "loop t c ov (cs @ [strip (py_slice t s e)]) 0 c = Some y"
      by (simp add: Let_def)
    from IH[OF this] a show False by simp
  qed
qed

lemma split_loop_stuck:
  assumes "0 < chunk_size" "chunk_size \<le> overlap" "chunk_size < int (length text)"
  shows "split_loop text chunk_size overlap chunks 0 chunk_size = None"
proof (cases "split_loop text chunk_size overlap chunks 0 chunk_size")
  case None
  then show ?thesis .
next
  case (Some y)
  from split_loop_stuck_aux[OF Some] assms show ?thesis by simp
qed

lemma split_text_stuck:
  assumes "0 < chunk_size" "chunk_size \<le> overlap" "chunk_size < int (length text)"
  shows "split_text text chunk_size overlap = None"
  using assms by (simp add: split_text_def split_loop_stuck)

text \<open>With an \<open>overlap\<close> below \<open>chunk_size\<close> the window's end grows at every turn, and the
  loop ends.\<close>

lemma split_loop_terminates:
  assumes "overlap < chunk_size"
  shows "\<exists>y. split_loop text chunk_size overlap chunks start end = Some y"
proof (induction "nat (int (length text) - end)" arbitrary: chunks start "end" rule: less_induct)
  case less
  show ?case
  proof (cases "start < int (length text) \<and> end < int (length text)")
    case False
    then show ?thesis
      by (subst split_loop.simps) (auto simp: Let_def)
  next
    case True
    let ?s = "max 0 (end - overlap)"
    let ?e = "min (int (length text)) (?s + chunk_size)"
    from True assms have "nat (int (length text) - ?e) < nat (int (length text) - end)"
      by auto
    from less[OF this] obtain y where
      "split_loop text chunk_size overlap (chunks @ [strip (py_slice text start end)]) ?s ?e
         = Some y"
      by blast
    with True show ?thesis
      by (subst split_loop.simps) (simp add: Let_def)
  qed
qed

lemma split_text_terminates:
  assumes "overlap < chunk_size"
  shows "\<exists>chunks. split_text text chunk_size overlap = Some chunks"
proof (cases "int (length text) \<le> chunk_size")
  case True
  then show ?thesis by (simp add: split_text_def)
next
  case False
  from split_loop_terminates[OF assms] obtain y where
    "split_loop text chunk_size overlap [] 0 chunk_size = Some y"
    by blast
  with False show ?thesis by (simp add: split_text_def)
qed

text \<open>
  C4. The claim: for every text and every overlap, also an overlap of \<open>chunk_size\<close> or
  more, the split loop moves forward and ends (with \<open>chunk_size > 0\<close>). On the text
  \<open>abc\<close> with \<open>chunk_size = 2\<close> and \<open>overlap = 2\<close> the loop of the code never ends:
  \<open>split_text\<close> has no result.
\<close>

theorem split_text_overlap_eq_chunk_size_hangs:
  "split_text ''abc'' 2 2 = None"
  by (rule split_text_stuck) simp_all

subsection \<open>Windows of a text of 2000 characters\<close>

lemma split_text_2000:
  assumes "length text = 2000"
  shows "split_text text 900 150 =
     Some (filter (\<lambda>chunk. chunk \<noteq> [])
       (map strip [py_slice text 0 900, py_slice text 750 1650, py_slice text 1500 2000]))"
  using assms
  by (simp add: split_text_def split_loop.simps Let_def)

lemma strip_spaces: "strip (replicate n (CHR '' '')) = []"
  by (simp add: strip_def is_space_def)

lemma strip_letters: "strip (replicate n (CHR ''a'')) = replicate n (CHR ''a'')"
proof -
  have "dropWhile is_space (replicate n (CHR ''a'')) = replicate n (CHR ''a'')"
    by (cases n) (simp_all add: is_space_def)
  then show ?thesis by (simp add: strip_def)
qed

text \<open>
  C7, as the claim states it, fails: a text of 2000 spaces has the three windows, but
  each is empty after trimming and is dropped, so \<open>split_text\<close> returns no chunk, not 3.
\<close>

theorem split_text_2000_spaces_no_chunk:
  "split_text (replicate 2000 (CHR '' '')) 900 150 = Some []"
  by (simp add: split_text_2000 py_slice_def strip_spaces)

text \<open>
  C7, amended. For every text of exactly 2000 characters, \<open>split_text\<close> with
  \<open>chunk_size = 900\<close> and \<open>overlap = 150\<close> takes its windows at the character ranges
  [0,900), [750,1650) and [1500,2000): three windows of 900, 900 and 500 characters. It
  returns the trimmed windows, without those that are empty after trimming; so it
  returns 3 chunks when no window is all whitespace.
\<close>

theorem split_text_2000_windows:
  assumes "length text = 2000"
  shows "split_text text 900 150 =
           Some (filter (\<lambda>chunk. chunk \<noteq> [])
             (map strip [py_slice text 0 900, py_slice text 750 1650, py_slice text 1500 2000]))
         \<and> map length [py_slice text 0 900, py_slice text 750 1650, py_slice text 1500 2000]
             = [900, 900, 500]
         \<and> ((\<forall>w \<in> set [py_slice text 0 900, py_slice text 750 1650, py_slice text 1500 2000].
                strip w \<noteq> [])
            \<longrightarrow> split_text text 900 150 =
                  Some [strip (py_slice text 0 900), strip (py_slice text 750 1650),
                        strip (py_slice text 1500 2000)])"
  using assms by (simp add: split_text_2000) (simp add: py_slice_def)

theorem split_text_2000_windows_witness:
  "length (replicate 2000 (CHR ''a'')) = 2000
   \<and> split_text (replicate 2000 (CHR ''a'')) 900 150 =
       Some [replicate 900 (CHR ''a''), replicate 900 (CHR ''a''), replicate 500 (CHR ''a'')]"
  using split_text_2000_windows[of "replicate 2000 (CHR ''a'')"]
  by (simp add: py_slice_def strip_letters)

subsection \<open>Trimmed, empty and blank chunks\<close>

text \<open>
  Every chunk \<open>split_text\<close> returns is a trimmed piece of the text. The chunks of a text
  longer than \<open>chunk_size\<close> went through the final filter, so none of them is empty; a
  text that fits one chunk is returned trimmed, as the only chunk, whatever it is.
\<close>

lemma rstrip_prefix: "\<exists>w. u = rev (dropWhile P (rev u)) @ w"
proof -
  have "rev (takeWhile P (rev u) @ dropWhile P (rev u)) = u"
    by (simp only: takeWhile_dropWhile_id rev_rev_ident)
  then have "rev (dropWhile P (rev u)) @ rev (takeWhile P (rev u)) = u"
    by (simp only: rev_append)
  then show ?thesis by metis
qed

lemma dropWhile_rstrip:
  assumes "dropWhile P u = u"
  shows "dropWhile P (rev (dropWhile P (rev u))) = rev (dropWhile P (rev u))"
proof (cases "rev (dropWhile P (rev u))")
  case Nil
  then show ?thesis by (metis dropWhile.simps(1))
next
  case (Cons x xs)
  from rstrip_prefix[of u P] Cons obtain w where u: "u = (x # xs) @ w" by metis
  with assms have "\<not> P x"
    by (metis append_Cons dropWhile_eq_Cons_conv)
  with Cons show ?thesis by simp
qed

lemma strip_idem: "strip (strip s) = strip s"
proof -
  let ?u = "dropWhile is_space s"
  have "dropWhile is_space ?u = ?u" by simp
  from dropWhile_rstrip[OF this]
  show ?thesis by (simp add: strip_def)
qed

lemma strip_substring: "\<exists>ps ss. s = ps @ strip s @ ss"
proof -
  let ?u = "dropWhile is_space s"
  from rstrip_prefix[of ?u is_space] obtain w where "?u = strip s @ w"
    by (auto simp: strip_def)
  then have "s = takeWhile is_space s @ strip s @ w"
    by (metis takeWhile_dropWhile_id)
  then show ?thesis by blast
qed

lemma py_slice_substring: "\<exists>ps ss. xs = ps @ py_slice xs a b @ ss"
proof -
  have "xs = take m xs @ take n (drop m xs) @ drop n (drop m xs)" for m n
    by (metis append_take_drop_id)
  then show ?thesis unfolding py_slice_def Let_def by blast
qed

lemma window_substring: "\<exists>ps ss. text = ps @ strip (py_slice text a b) @ ss"
proof -
  from py_slice_substring[of "text" a b] obtain p1 s1 where
    1: "text = p1 @ py_slice text a b @ s1" by blast
  from strip_substring[of "py_slice text a b"] obtain p2 s2 where
    2: "py_slice text a b = p2 @ strip (py_slice text a b) @ s2" by blast
  have "text = (p1 @ p2) @ strip (py_slice text a b) @ (s2 @ s1)"
    by (subst 1, subst 2) simp
  then show ?thesis by blast
qed

lemma split_loop_chunks:
  assumes "split_loop text chunk_size overlap chunks start end = Some res"
  shows "(\<forall>c \<in> set chunks. strip c = c \<and> (\<exists>ps ss. text = ps @ c @ ss))
         \<longrightarrow> (\<forall>c \<in> set res. strip c = c \<and> (\<exists>ps ss. text = ps @ c @ ss))"
proof (rule split_loop.raw_induct[where P = "\<lambda>t c ov cs s e res.
         (\<forall>c \<in> set cs. strip c = c \<and> (\<exists>ps ss. t = ps @ c @ ss))
         \<longrightarrow> (\<forall>c \<in> set res. strip c = c \<and> (\<exists>ps ss. t = ps @ c @ ss))", OF _ assms])
  fix loop t c ov cs s e res
  assume IH: "\<And>t c ov cs s e res. loop t c ov cs s e = Some res \<Longrightarrow>
                (\<forall>c \<in> set cs. strip c = c \<and> (\<exists>ps ss. t = ps @ c @ ss))
                \<longrightarrow> (\<forall>c \<in> set res. strip c = c \<and> (\<exists>ps ss. t = ps @ c @ ss))"
    and step: "(let text_len = int (length t) in
      if s < text_len then
        (let chunk = py_slice t s e;
             chunks' = cs @ [strip chunk]
         in if e \<ge> text_len then Some chunks'
            else (let start' = max 0 (e - ov);
                      end' = min text_len (start' + c)
                  in loop t c ov chunks' start' end'))
      else Some cs) = Some res"
  show "(\<forall>c \<in> set cs. strip c = c \<and> (\<exists>ps ss. t = ps @ c @ ss))
        \<longrightarrow> (\<forall>c \<in> set res. strip c = c \<and> (\<exists>ps ss. t = ps @ c @ ss))"
  proof
    assume tr: "\<forall>c \<in> set cs. strip c = c \<and> (\<exists>ps ss. t = ps @ c @ ss)"
    have w: "strip (strip (py_slice t s e)) = strip (py_slice t s e)
             \<and> (\<exists>ps ss. t = ps @ strip (py_slice t s e) @ ss)"
      using strip_idem window_substring by blast
    with tr have tr': "\<forall>c \<in> set (cs @ [strip (py_slice t s e)]).
                         strip c = c \<and> (\<exists>ps ss. t = ps @ c @ ss)"
      by auto
    show "\<forall>c \<in> set res. strip c = c \<and> (\<exists>ps ss. t = ps @ c @ ss)"
    proof (cases "s < int (length t)")
      case False
      with step tr show ?thesis by (simp add: Let_def)
    next
      case True
      show ?thesis
      proof (cases "int (length t) \<le> e")
        case True
        with \<open>s < int (length t)\<close> step have "res = cs @ [strip (py_slice t s e)]"
          by (simp add: Let_def)
        with tr' show ?thesis by blast
      next
        case False
        with \<open>s < int (length t)\<close> step
        have "loop t c ov (cs @ [strip (py_slice t s e)]) (max 0 (e - ov))
                (min (int (length t)) (max 0 (e - ov) + c)) = Some res"
          by (simp add: Let_def)
        from IH[OF this] tr' show ?thesis by blast
      qed
    qed
  qed
qed

lemma split_text_chunk_props:
  assumes "split_text text chunk_size overlap = Some chunks" and "c \<in> set chunks"
  shows "strip c = c
         \<and> (\<exists>ps ss. text = ps @ c @ ss)
         \<and> (chunk_size < int (length text) \<longrightarrow> c \<noteq> [])
         \<and> (strip text \<noteq> [] \<longrightarrow> c \<noteq> [])
         \<and> (int (length text) \<le> chunk_size \<longrightarrow> chunks = [strip text])"
proof (cases "int (length text) \<le> chunk_size")
  case True
  with assms have c: "chunks = [strip text]" "c = strip text"
    by (auto simp: split_text_def)
  with True strip_idem[of "text"] strip_substring[of "text"] show ?thesis by auto
next
  case False
  with assms obtain res where r: "split_loop text chunk_size overlap [] 0 chunk_size = Some res"
    and c: "chunks = filter (\<lambda>chunk. chunk \<noteq> []) res"
    by (auto simp: split_text_def)
  from split_loop_chunks[OF r]
  have "\<forall>c \<in> set res. strip c = c \<and> (\<exists>ps ss. text = ps @ c @ ss)" by simp
  with c assms(2) False show ?thesis by auto
qed




text \<open>
  The texts \<open>build_chunks\<close> splits are never blank: each one \<open>generate_documents\<close> yields
  starts with \<open>Source:\<close>. So no chunk of a run has an empty body.
\<close>

lemma strip_eq_Nil_iff: "strip s = [] \<longleftrightarrow> (\<forall>c \<in> set s. is_space c)"
proof -
  let ?u = "dropWhile is_space s"
  have "strip s = [] \<longleftrightarrow> (\<forall>x \<in> set ?u. is_space x)"
    by (simp add: strip_def dropWhile_eq_Nil_conv)
  also have "\<dots> \<longleftrightarrow> ?u = []"
  proof
    assume a: "\<forall>x \<in> set ?u. is_space x"
    show "?u = []"
    proof (rule ccontr)
      assume n: "?u \<noteq> []"
      then have "\<not> is_space (hd ?u)" by (rule hd_dropWhile)
      moreover from n have "hd ?u \<in> set ?u" by simp
      ultimately show False using a by blast
    qed
  qed (auto dest: set_dropWhileD)
  also have "\<dots> \<longleftrightarrow> (\<forall>c \<in> set s. is_space c)"
    by (simp add: dropWhile_eq_Nil_conv)
  finally show ?thesis .
qed

lemma generate_documents_text_nonblank:
  assumes "(base_id, tp, text) \<in> set (generate_documents src payload)"
  shows "strip text \<noteq> []"
proof -
  have S: "\<not> is_space (CHR ''S'')" by (simp add: is_space_def)
  have nb: "strip (''Source: '' @ rest) \<noteq> []" for rest
    using S by (simp add: strip_eq_Nil_iff)
  show ?thesis
  proof (cases payload)
    case (JScalar v)
    with assms nb show ?thesis by auto
  next
    case (JList xs)
    with assms nb show ?thesis by (auto simp: Let_def strip_idem)
  next
    case (JDict kvs)
    with assms nb show ?thesis by (auto simp: Let_def strip_idem)
  qed
qed


lemma documents_loop_bodies:
  assumes "documents_loop H chunk_size overlap name docs acc = Inr res"
    and "\<forall>d \<in> set docs. strip (snd (snd d)) \<noteq> []"
    and "\<forall>c \<in> set acc. body c \<noteq> []"
  shows "\<forall>c \<in> set res. body c \<noteq> []"
  using assms
proof (induction docs arbitrary: acc)
  case Nil
  then show ?case by simp
next
  case (Cons d docs)
  obtain base_id tp t where d: "d = (base_id, tp, t)" by (cases d)
  with Cons.prems(2) have nb: "strip t \<noteq> []" by simp
  from Cons.prems(1) d obtain pieces where
    p: "split_text t chunk_size overlap = Some pieces"
    by (cases "split_text t chunk_size overlap") auto
  have pn: "\<forall>x \<in> set pieces. x \<noteq> []"
    using split_text_chunk_props[OF p] nb by blast
  let ?new = "map (\<lambda>(idx, chunk_text).
                    \<lparr>chunk_id = base_id @ '':'' @ str_of_nat idx, source = name, topic = tp,
                     body = chunk_text, checksum = H chunk_text\<rparr>)
                 (enumerate 1 pieces)"
  from pn have "\<forall>c \<in> set ?new. body c \<noteq> []"
    by (auto simp: enumerate_eq_zip dest: set_zip_rightD)
  with Cons.prems(3) have acc': "\<forall>c \<in> set (acc @ ?new). body c \<noteq> []" by auto
  from Cons.prems(1) d p
  have "documents_loop H chunk_size overlap name docs (acc @ ?new) = Inr res" by simp
  from Cons.IH[OF this _ acc'] Cons.prems(2) show ?case by simp
qed

lemma files_loop_bodies:
  assumes "files_loop H chunk_size overlap files acc = Inr res"
    and "\<forall>c \<in> set acc. body c \<noteq> []"
  shows "\<forall>c \<in> set res. body c \<noteq> []"
  using assms
proof (induction files arbitrary: acc)
  case Nil
  then show ?case by simp
next
  case (Cons f files)
  obtain name content where f: "f = (name, content)" by (cases f)
  from Cons.prems(1) f obtain payload where c: "content = Some payload"
    by (cases content) auto
  from Cons.prems(1) f c obtain acc' where
    dl: "documents_loop H chunk_size overlap name
           (generate_documents (path_stem name) payload) acc = Inr acc'"
    and fl: "files_loop H chunk_size overlap files acc' = Inr res"
    by (auto split: sum.splits)
  have "\<forall>d \<in> set (generate_documents (path_stem name) payload). strip (snd (snd d)) \<noteq> []"
    using generate_documents_text_nonblank by force
  from documents_loop_bodies[OF dl this Cons.prems(2)]
  have "\<forall>c \<in> set acc'. body c \<noteq> []" .
  from Cons.IH[OF fl this] show ?case .
qed

lemma build_chunks_bodies_nonempty:
  assumes "build_chunks H data_dir chunk_size overlap = Inr chunks" "c \<in> set chunks"
  shows "body c \<noteq> []"
proof -
  from assms(1) obtain entries where
    "files_loop H chunk_size overlap
       (sort_key fst (filter (\<lambda>(name, content). matches_json name) entries)) [] = Inr chunks"
    by (auto simp: build_chunks_def split: option.splits)
  from files_loop_bodies[OF this] assms(2) show ?thesis by simp
qed

section \<open>The diff and the state store\<close>

subsection \<open>Diff classification\<close>

lemma to_refresh_new_or_changed:
  "to_refresh existing_rows chunks =
     filter (\<lambda>c. map_of existing_rows (chunk_id c) = None
                 \<or> (\<exists>h. map_of existing_rows (chunk_id c) = Some h \<and> h \<noteq> checksum c)) chunks"
  unfolding to_refresh_def
proof (rule filter_cong[OF refl])
  fix c
  show "(map_of existing_rows (chunk_id c) \<noteq> Some (checksum c)) =
        (map_of existing_rows (chunk_id c) = None
           \<or> (\<exists>h. map_of existing_rows (chunk_id c) = Some h \<and> h \<noteq> checksum c))"
    by (cases "map_of existing_rows (chunk_id c)") auto
qed

text \<open>
  C5. \<open>to_delete\<close> is the list, sorted and without repetition, of the ids the loaded
  rows know and the fresh chunks do not have; \<open>to_refresh\<close> is the fresh chunks, in
  their order, whose id the rows do not know or whose recorded checksum differs. For
  the rows \<open>{A: h1, B: h2}\<close> and the one fresh chunk \<open>A\<close> with checksum \<open>h1\<close>, \<open>to_delete\<close>
  is \<open>[B]\<close> and \<open>to_refresh\<close> is empty.
\<close>

theorem diff_classification:
  "sorted (to_delete existing_rows chunks)
   \<and> distinct (to_delete existing_rows chunks)
   \<and> set (to_delete existing_rows chunks)
       = set (map fst existing_rows) - set (map chunk_id chunks)
   \<and> to_refresh existing_rows chunks =
       filter (\<lambda>c. map_of existing_rows (chunk_id c) = None
                   \<or> (\<exists>h. map_of existing_rows (chunk_id c) = Some h \<and> h \<noteq> checksum c))
         chunks
   \<and> to_delete [(''A'', ''h1''), (''B'', ''h2'')]
        [\<lparr>chunk_id = ''A'', source = s, topic = t, body = b, checksum = ''h1''\<rparr>] = [''B'']
   \<and> to_refresh [(''A'', ''h1''), (''B'', ''h2'')]
        [\<lparr>chunk_id = ''A'', source = s, topic = t, body = b, checksum = ''h1''\<rparr>] = []"
proof -
  have "to_delete [(''A'', ''h1''), (''B'', ''h2'')]
          [\<lparr>chunk_id = ''A'', source = s, topic = t, body = b, checksum = ''h1''\<rparr>] = [''B'']"
    by (simp add: to_delete_def)
  moreover have "to_refresh [(''A'', ''h1''), (''B'', ''h2'')]
          [\<lparr>chunk_id = ''A'', source = s, topic = t, body = b, checksum = ''h1''\<rparr>] = []"
    by (simp add: to_refresh_def)
  moreover have "sorted (to_delete existing_rows chunks)"
    "distinct (to_delete existing_rows chunks)"
    "set (to_delete existing_rows chunks)
       = set (map fst existing_rows) - set (map chunk_id chunks)"
    by (simp_all add: to_delete_def)
  ultimately show ?thesis
    using to_refresh_new_or_changed[of existing_rows chunks] by blast
qed

subsection \<open>Persist\<close>

lemma update_fresh: "k \<notin> fst ` set al \<Longrightarrow> AList.update k v al = al @ [(k, v)]"
  by (induction al) auto

lemma fold_update_distinct:
  "distinct (map row_id rows) \<Longrightarrow> set (map row_id rows) \<inter> fst ` set d = {} \<Longrightarrow>
   fold (\<lambda>r d. AList.update (row_id r) (row_checksum r) d) rows d
     = d @ map (\<lambda>r. (row_id r, row_checksum r)) rows"
proof (induction rows arbitrary: d)
  case Nil
  then show ?case by simp
next
  case (Cons r rows)
  from Cons.prems have fresh: "row_id r \<notin> fst ` set d" by auto
  have step: "AList.update (row_id r) (row_checksum r) d = d @ [(row_id r, row_checksum r)]"
    by (rule update_fresh[OF fresh])
  from Cons.prems have "distinct (map row_id rows)"
    and "set (map row_id rows) \<inter> fst ` set (d @ [(row_id r, row_checksum r)]) = {}"
    by auto
  from Cons.IH[OF this] step show ?case by simp
qed

lemma insert_rows_Some:
  "insert_rows table rs = Some table' \<longleftrightarrow>
     (distinct (map row_id rs) \<and> set (map row_id rs) \<inter> set (map row_id table) = {}
      \<and> table' = table @ rs)"
  by (induction rs arbitrary: table) auto

text \<open>The inserts go through exactly when no two chunks share an id.\<close>

lemma insert_rows_chunks:
  "insert_rows [] (map (row_of now) chunks) =
     (if distinct (map chunk_id chunks) then Some (map (row_of now) chunks) else None)"
proof -
  have ids: "map (row_id \<circ> row_of now) chunks = map chunk_id chunks"
    by (simp add: row_of_def)
  show ?thesis
  proof (cases "insert_rows [] (map (row_of now) chunks)")
    case None
    with insert_rows_Some[of "[]" "map (row_of now) chunks" "map (row_of now) chunks"] ids
    show ?thesis by simp
  next
    case (Some table')
    with insert_rows_Some[of "[]" "map (row_of now) chunks" table'] ids
    show ?thesis by simp
  qed
qed

lemma persist_sqlite_ok:
  "persist_sqlite now st chunks = (Inr (), st') \<longleftrightarrow>
     (distinct (map chunk_id chunks) \<and> st' = Some (map (row_of now) chunks))"
  by (auto simp: persist_sqlite_def insert_rows_chunks)

lemma persist_sqlite_fails:
  "\<not> distinct (map chunk_id chunks) \<Longrightarrow>
   persist_sqlite now st chunks
     = (Inl IntegrityError, Some (case st of None \<Rightarrow> [] | Some rows \<Rightarrow> rows))"
  by (simp add: persist_sqlite_def insert_rows_chunks)

lemma load_persisted:
  assumes "distinct (map chunk_id chunks)"
  shows "load_existing_rows (Some (map (row_of now) chunks))
           = map (\<lambda>c. (chunk_id c, checksum c)) chunks"
proof -
  have "distinct (map row_id (map (row_of now) chunks))"
    using assms by (simp add: row_of_def comp_def)
  then show ?thesis
    by (simp add: load_existing_rows_def fold_update_distinct) (simp add: row_of_def comp_def)
qed

lemma persisted_mapping:
  assumes d: "distinct (map chunk_id chunks)"
  shows "load_existing_rows (Some (map (row_of now) chunks))
           = map (\<lambda>c. (chunk_id c, checksum c)) chunks
         \<and> fst ` set (load_existing_rows (Some (map (row_of now) chunks))) = chunk_id ` set chunks
         \<and> (\<forall>c \<in> set chunks.
               map_of (load_existing_rows (Some (map (row_of now) chunks))) (chunk_id c)
                 = Some (checksum c))"
proof -
  let ?st = "Some (map (row_of now) chunks)"
  have l: "load_existing_rows ?st = map (\<lambda>c. (chunk_id c, checksum c)) chunks"
    by (rule load_persisted[OF d])
  have k: "fst ` set (load_existing_rows ?st) = chunk_id ` set chunks"
    unfolding l by force
  have m: "map_of (load_existing_rows ?st) (chunk_id c) = Some (checksum c)"
    if "c \<in> set chunks" for c
  proof -
    have "distinct (map fst (map (\<lambda>c. (chunk_id c, checksum c)) chunks))"
      using d by (simp add: comp_def)
    moreover have "(chunk_id c, checksum c) \<in> set (map (\<lambda>c. (chunk_id c, checksum c)) chunks)"
      using that by auto
    ultimately show ?thesis
      unfolding l by (rule map_of_is_SomeI)
  qed
  from l k m show ?thesis by blast
qed

text \<open>
  C6. For every chunk list whose ids are distinct, \<open>persist_sqlite\<close> completes, whatever
  the store held; when it completes, the store holds the rows of the current chunks and
  nothing of its prior contents, and the mapping \<open>load_existing_rows\<close> reads from it is
  the list of the pairs (\<open>chunk_id\<close>, \<open>checksum\<close>) of the current chunks: its keys are
  the chunks' ids, and each id maps to its chunk's checksum. It completes only for
  distinct ids: with a repeated id the insert raises \<open>IntegrityError\<close>.
\<close>

theorem persist_round_trip:
  "(distinct (map chunk_id chunks) \<longrightarrow>
      persist_sqlite now st chunks = (Inr (), Some (map (row_of now) chunks))
      \<and> load_existing_rows (snd (persist_sqlite now st chunks))
          = map (\<lambda>c. (chunk_id c, checksum c)) chunks
      \<and> fst ` set (load_existing_rows (snd (persist_sqlite now st chunks)))
          = chunk_id ` set chunks
      \<and> (\<forall>c \<in> set chunks.
            map_of (load_existing_rows (snd (persist_sqlite now st chunks))) (chunk_id c)
              = Some (checksum c)))
   \<and> (persist_sqlite now st chunks = (Inr (), st') \<longrightarrow>
        st' = Some (map (row_of now) chunks)
        \<and> load_existing_rows st' = map (\<lambda>c. (chunk_id c, checksum c)) chunks
        \<and> distinct (map chunk_id chunks)
        \<and> fst ` set (load_existing_rows st') = chunk_id ` set chunks
        \<and> (\<forall>c \<in> set chunks. map_of (load_existing_rows st') (chunk_id c) = Some (checksum c)))
   \<and> (\<not> distinct (map chunk_id chunks) \<longrightarrow>
        fst (persist_sqlite now st chunks) = Inl IntegrityError)"
proof (intro conjI impI)
  assume d: "distinct (map chunk_id chunks)"
  then have p: "persist_sqlite now st chunks = (Inr (), Some (map (row_of now) chunks))"
    by (simp add: persist_sqlite_ok)
  show "persist_sqlite now st chunks = (Inr (), Some (map (row_of now) chunks))" by (rule p)
  from persisted_mapping[OF d, of now]
  show "load_existing_rows (snd (persist_sqlite now st chunks))
          = map (\<lambda>c. (chunk_id c, checksum c)) chunks"
    and "fst ` set (load_existing_rows (snd (persist_sqlite now st chunks)))
          = chunk_id ` set chunks"
    and "\<forall>c \<in> set chunks.
            map_of (load_existing_rows (snd (persist_sqlite now st chunks))) (chunk_id c)
              = Some (checksum c)"
    unfolding p snd_conv by blast+
next
  assume a: "persist_sqlite now st chunks = (Inr (), st')"
  then have d: "distinct (map chunk_id chunks)"
    and s: "st' = Some (map (row_of now) chunks)"
    by (simp_all add: persist_sqlite_ok)
  show "st' = Some (map (row_of now) chunks)" by (rule s)
  show "distinct (map chunk_id chunks)" by (rule d)
  from persisted_mapping[OF d, of now]
  show "load_existing_rows st' = map (\<lambda>c. (chunk_id c, checksum c)) chunks"
    and "fst ` set (load_existing_rows st') = chunk_id ` set chunks"
    and "\<forall>c \<in> set chunks. map_of (load_existing_rows st') (chunk_id c) = Some (checksum c)"
    unfolding s by blast+
next
  assume "\<not> distinct (map chunk_id chunks)"
  then show "fst (persist_sqlite now st chunks) = Inl IntegrityError"
    by (simp add: persist_sqlite_fails)
qed

text \<open>
  Two chunks persisted over a store of two rows, one with the id of the first chunk
  and an older checksum, one with an id that no chunk has.
\<close>

theorem persist_round_trip_witness:
  "distinct (map chunk_id
     [\<lparr>chunk_id = ''A'', source = ''f.json'', topic = ''t'', body = ''new'', checksum = ''h1''\<rparr>,
      \<lparr>chunk_id = ''C'', source = ''g.json'', topic = ''u'', body = ''more'', checksum = ''h3''\<rparr>])
   \<and> persist_sqlite ''2026-11-03T00:00:00+00:00''
     (Some [\<lparr>row_id = ''A'', row_source = ''f.json'', row_topic = ''t'', row_body = ''old'',
             row_checksum = ''h0'', row_updated_at = ''2026-11-02T00:00:00+00:00''\<rparr>,
            \<lparr>row_id = ''B'', row_source = ''f.json'', row_topic = ''t'', row_body = ''gone'',
             row_checksum = ''h2'', row_updated_at = ''2026-11-02T00:00:00+00:00''\<rparr>])
     [\<lparr>chunk_id = ''A'', source = ''f.json'', topic = ''t'', body = ''new'', checksum = ''h1''\<rparr>,
      \<lparr>chunk_id = ''C'', source = ''g.json'', topic = ''u'', body = ''more'', checksum = ''h3''\<rparr>]
   = (Inr (),
      Some [\<lparr>row_id = ''A'', row_source = ''f.json'', row_topic = ''t'', row_body = ''new'',
             row_checksum = ''h1'', row_updated_at = ''2026-11-03T00:00:00+00:00''\<rparr>,
            \<lparr>row_id = ''C'', row_source = ''g.json'', row_topic = ''u'', row_body = ''more'',
             row_checksum = ''h3'', row_updated_at = ''2026-11-03T00:00:00+00:00''\<rparr>])
   \<and> load_existing_rows
       (Some [\<lparr>row_id = ''A'', row_source = ''f.json'', row_topic = ''t'', row_body = ''new'',
               row_checksum = ''h1'', row_updated_at = ''2026-11-03T00:00:00+00:00''\<rparr>,
              \<lparr>row_id = ''C'', row_source = ''g.json'', row_topic = ''u'', row_body = ''more'',
               row_checksum = ''h3'', row_updated_at = ''2026-11-03T00:00:00+00:00''\<rparr>])
     = [(''A'', ''h1''), (''C'', ''h3'')]"
  (is "distinct (map chunk_id ?chunks) \<and> persist_sqlite ?now ?st ?chunks = (Inr (), ?st') \<and> _")
proof -
  have d: "distinct (map chunk_id ?chunks)" by simp
  from persist_round_trip[of ?chunks ?now ?st ?st'] d
  show ?thesis by (simp add: row_of_def)
qed

section \<open>Chunk ids\<close>

text \<open>
  C3. The claim: one run never produces two chunks with the same \<open>chunk_id\<close>, also when
  two documents of one source have the same topic. For the file \<open>jobs.json\<close> holding the
  list of two entries with the title \<open>Engineer\<close>, both documents get the base id
  \<open>jobs-engineer\<close>, and the sequence numbers start at 1 in each: the code produces the
  chunk id \<open>jobs-engineer:1\<close> twice, whatever the hash \<open>H\<close>.
\<close>

theorem build_chunks_same_title_same_chunk_id:
  "map_sum id (map chunk_id)
     (build_chunks H
        (Some [(''jobs.json'',
                Some (JList [JDict [(''title'', JScalar (SStr ''Engineer''))],
                             JDict [(''title'', JScalar (SStr ''Engineer''))]]))])
        900 150)
   = Inr [''jobs-engineer:1'', ''jobs-engineer:1'']"
  by (simp add: build_chunks_def matches_json_def path_stem_def split_text_def strip_def
      is_space_def slugify_def strip_hyphens_def lower_char_def is_alnum_def json_dumps_def
      encode_basestring_def escape_char_def newline_indent_def str_of_nat.simps enumerate_eq_zip
      Let_def)

section \<open>Index Client: the size of a request\<close>

lemma py_slice_length_le:
  assumes "0 \<le> start" "0 \<le> sz"
  shows "int (length (py_slice xs start (start + sz))) \<le> sz"
  using assms by (auto simp: py_slice_def Let_def min_def)

lemma chunked_batches_bounded:
  assumes "chunked xs sz = Inr batches" "b \<in> set batches"
  shows "int (length b) \<le> sz"
proof -
  from assms(1) have nz: "sz \<noteq> 0"
    by (auto simp: chunked_def py_range0_def split: if_splits)
  show ?thesis
  proof (cases "sz < 0")
    case True
    with assms show ?thesis by (simp add: chunked_def py_range0_def)
  next
    case False
    with nz have pos: "0 < sz" by simp
    with assms obtain k where "b = py_slice xs (int k * sz) (int k * sz + sz)"
      by (auto simp: chunked_def py_range0_def)
    moreover have "0 \<le> int k * sz" using pos by simp
    ultimately show ?thesis using py_slice_length_le[of "int k * sz" sz xs] pos by simp
  qed
qed

lemma upsert_loop_calls:
  "\<exists>new. snd (upsert_loop srv self batches log) = log @ new
        \<and> (\<forall>c \<in> set new. \<exists>batch \<in> set batches.
               fst c = UpsertRequest batch (namespace_key (namespace self)))"
proof (induction batches arbitrary: log)
  case Nil
  then show ?case by simp
next
  case (Cons batch batches)
  let ?rq = "UpsertRequest batch (namespace_key (namespace self))"
  let ?log' = "log @ [(?rq, srv log ?rq)]"
  show ?case
  proof (cases "status_code (srv log ?rq) \<ge> 300")
    case True
    then have "snd (upsert_loop srv self (batch # batches) log) = log @ [(?rq, srv log ?rq)]"
      by (simp add: Let_def)
    then show ?thesis by auto
  next
    case False
    from Cons.IH[of ?log'] obtain new where
      n: "snd (upsert_loop srv self batches ?log') = ?log' @ new"
        "\<forall>c \<in> set new. \<exists>b \<in> set batches. fst c = UpsertRequest b (namespace_key (namespace self))"
      by blast
    from False n(1) have
      "snd (upsert_loop srv self (batch # batches) log) = log @ ((?rq, srv log ?rq) # new)"
      by (simp add: Let_def)
    moreover from n(2) have "\<forall>c \<in> set ((?rq, srv log ?rq) # new). \<exists>b \<in> set (batch # batches).
               fst c = UpsertRequest b (namespace_key (namespace self))"
      by auto
    ultimately show ?thesis by blast
  qed
qed

lemma upsert_calls_bounded:
  "\<exists>new. snd (upsert srv self vectors log) = log @ new
      \<and> (\<forall>c \<in> set new. \<exists>batch. fst c = UpsertRequest batch (namespace_key (namespace self))
             \<and> int (length batch) \<le> batch_size self)"
proof (cases "chunked vectors (batch_size self)")
  case (Inl e)
  then show ?thesis by (simp add: upsert_def)
next
  case (Inr batches)
  from upsert_loop_calls[of srv self batches log] obtain new where
    n: "snd (upsert_loop srv self batches log) = log @ new"
       "\<forall>c \<in> set new. \<exists>batch \<in> set batches.
               fst c = UpsertRequest batch (namespace_key (namespace self))"
    by blast
  from n(2) chunked_batches_bounded[OF Inr]
  have "\<forall>c \<in> set new. \<exists>batch. fst c = UpsertRequest batch (namespace_key (namespace self))
             \<and> int (length batch) \<le> batch_size self"
    by blast
  with n(1) Inr show ?thesis by (simp add: upsert_def)
qed

lemma delete_one_call:
  "snd (delete srv self ids log)
     = log @ [(DeleteRequest ids (namespace_key (namespace self)),
               srv log (DeleteRequest ids (namespace_key (namespace self))))]"
  by (simp add: delete_def Let_def)

text \<open>
  C9, as the claim states it, fails for \<open>delete\<close>: it does not batch. A client with
  \<open>batch_size = 2\<close> asked to delete three ids posts one request that carries all three.
\<close>

theorem delete_posts_all_ids_in_one_request:
  "snd (delete (\<lambda>log rq. \<lparr>status_code = 200, data = None\<rparr>)
          \<lparr>namespace = None, batch_size = 2\<rparr> [''a'', ''b'', ''c''] [])
   = [(DeleteRequest [''a'', ''b'', ''c''] None, \<lparr>status_code = 200, data = None\<rparr>)]"
  by (simp add: delete_def namespace_key_def truthy_def)

text \<open>
  C9, amended. Every request \<open>upsert\<close> posts is an upsert request that carries at most
  \<open>batch_size\<close> vectors, whatever the list of records. \<open>delete\<close> posts exactly one
  request, and it carries all the ids it was given: the size of a delete request is
  the length of the list of ids.
\<close>

theorem index_client_request_sizes:
  "(\<exists>new. snd (upsert srv self vectors log) = log @ new
      \<and> (\<forall>c \<in> set new. \<exists>batch. fst c = UpsertRequest batch (namespace_key (namespace self))
             \<and> int (length batch) \<le> batch_size self))
   \<and> snd (delete srv self ids log)
       = log @ [(DeleteRequest ids (namespace_key (namespace self)),
                 srv log (DeleteRequest ids (namespace_key (namespace self))))]"
  using upsert_calls_bounded[of srv self vectors log] delete_one_call[of srv self ids log]
  by blast

theorem index_client_request_sizes_witness:
  "snd (upsert (\<lambda>log rq. \<lparr>status_code = 200, data = None\<rparr>)
          \<lparr>namespace = Some ''ns'', batch_size = 2\<rparr>
          [\<lparr>vec_id = ''a'', vec_values = (1::nat),
            vec_metadata = \<lparr>md_source = ''s'', md_topic = ''t'', md_checksum = ''h''\<rparr>\<rparr>,
           \<lparr>vec_id = ''b'', vec_values = 2,
            vec_metadata = \<lparr>md_source = ''s'', md_topic = ''t'', md_checksum = ''h''\<rparr>\<rparr>,
           \<lparr>vec_id = ''c'', vec_values = 3,
            vec_metadata = \<lparr>md_source = ''s'', md_topic = ''t'', md_checksum = ''h''\<rparr>\<rparr>] [])
   = [(UpsertRequest
         [\<lparr>vec_id = ''a'', vec_values = 1,
           vec_metadata = \<lparr>md_source = ''s'', md_topic = ''t'', md_checksum = ''h''\<rparr>\<rparr>,
          \<lparr>vec_id = ''b'', vec_values = 2,
           vec_metadata = \<lparr>md_source = ''s'', md_topic = ''t'', md_checksum = ''h''\<rparr>\<rparr>]
         (Some ''ns''), \<lparr>status_code = 200, data = None\<rparr>),
       (UpsertRequest
         [\<lparr>vec_id = ''c'', vec_values = 3,
           vec_metadata = \<lparr>md_source = ''s'', md_topic = ''t'', md_checksum = ''h''\<rparr>\<rparr>]
         (Some ''ns''), \<lparr>status_code = 200, data = None\<rparr>)]
   \<and> snd (delete (\<lambda>log rq. \<lparr>status_code = 200, data = None :: nat list option\<rparr>)
            \<lparr>namespace = Some ''ns'', batch_size = 2\<rparr> [''x'', ''y'', ''z''] [])
     = [(DeleteRequest [''x'', ''y'', ''z''] (Some ''ns''), \<lparr>status_code = 200, data = None\<rparr>)]"
  using index_client_request_sizes
    [of "\<lambda>log rq. \<lparr>status_code = 200, data = None\<rparr>"
        "\<lparr>namespace = Some ''ns'', batch_size = 2\<rparr>"
        "[\<lparr>vec_id = ''a'', vec_values = (1::nat),
            vec_metadata = \<lparr>md_source = ''s'', md_topic = ''t'', md_checksum = ''h''\<rparr>\<rparr>,
           \<lparr>vec_id = ''b'', vec_values = 2,
            vec_metadata = \<lparr>md_source = ''s'', md_topic = ''t'', md_checksum = ''h''\<rparr>\<rparr>,
           \<lparr>vec_id = ''c'', vec_values = 3,
            vec_metadata = \<lparr>md_source = ''s'', md_topic = ''t'', md_checksum = ''h''\<rparr>\<rparr>]"
        "[]" "[''x'', ''y'', ''z'']"]
  by (simp add: upsert_def chunked_def py_range0_def py_slice_def namespace_key_def truthy_def
      Let_def upt_rec delete_def)

section \<open>Scan: the order of enumeration\<close>




section \<open>Remote failures\<close>

text \<open>
  Each function that posts requests keeps this: when every call before it had a status
  below 300, then after it either every call still has, or the function stopped with the
  error of a response whose status is 300 or more.
\<close>

lemma embed_loop_statuses:
  assumes "\<forall>c \<in> set log. status_code (snd c) < 300"
    and "embed_loop srv self batches vectors log = (r, log')"
  shows "(\<forall>c \<in> set log'. status_code (snd c) < 300) \<or> (\<exists>e. r = Inl e \<and> remote_failure e)"
  using assms
proof (induction batches arbitrary: vectors log)
  case Nil
  then show ?case by simp
next
  case (Cons batch batches)
  let ?rq = "EmbeddingsRequest (emb_model self) batch"
  let ?log' = "log @ [(?rq, srv log ?rq)]"
  show ?case
  proof (cases "status_code (srv log ?rq) \<ge> 300")
    case True
    with Cons.prems(2) show ?thesis by (auto simp: Let_def)
  next
    case False
    with Cons.prems(1) have ok: "\<forall>c \<in> set ?log'. status_code (snd c) < 300" by auto
    show ?thesis
    proof (cases "data (srv log ?rq)")
      case None
      with False Cons.prems(2) ok show ?thesis by (auto simp: Let_def)
    next
      case (Some vs)
      with False Cons.prems(2)
      have "embed_loop srv self batches (vectors @ vs) ?log' = (r, log')"
        by (simp add: Let_def)
      from Cons.IH[OF ok this] show ?thesis .
    qed
  qed
qed

lemma embed_statuses:
  assumes "\<forall>c \<in> set log. status_code (snd c) < 300"
    and "embed srv self texts log = (r, log')"
  shows "(\<forall>c \<in> set log'. status_code (snd c) < 300) \<or> (\<exists>e. r = Inl e \<and> remote_failure e)"
proof (cases "chunked texts (emb_batch_size self)")
  case (Inl e)
  with assms show ?thesis by (auto simp: embed_def)
next
  case (Inr batches)
  with assms(2) have "embed_loop srv self batches [] log = (r, log')"
    by (simp add: embed_def)
  from embed_loop_statuses[OF assms(1) this] show ?thesis .
qed

lemma upsert_loop_statuses:
  assumes "\<forall>c \<in> set log. status_code (snd c) < 300"
    and "upsert_loop srv self batches log = (r, log')"
  shows "(\<forall>c \<in> set log'. status_code (snd c) < 300) \<or> (\<exists>e. r = Inl e \<and> remote_failure e)"
  using assms
proof (induction batches arbitrary: log)
  case Nil
  then show ?case by simp
next
  case (Cons batch batches)
  let ?rq = "UpsertRequest batch (namespace_key (namespace self))"
  let ?log' = "log @ [(?rq, srv log ?rq)]"
  show ?case
  proof (cases "status_code (srv log ?rq) \<ge> 300")
    case True
    with Cons.prems(2) show ?thesis by (auto simp: Let_def)
  next
    case False
    with Cons.prems(1) have ok: "\<forall>c \<in> set ?log'. status_code (snd c) < 300" by auto
    from False Cons.prems(2) have "upsert_loop srv self batches ?log' = (r, log')"
      by (simp add: Let_def)
    from Cons.IH[OF ok this] show ?thesis .
  qed
qed

lemma upsert_statuses:
  assumes "\<forall>c \<in> set log. status_code (snd c) < 300"
    and "upsert srv self vectors log = (r, log')"
  shows "(\<forall>c \<in> set log'. status_code (snd c) < 300) \<or> (\<exists>e. r = Inl e \<and> remote_failure e)"
proof (cases "chunked vectors (batch_size self)")
  case (Inl e)
  with assms show ?thesis by (auto simp: upsert_def)
next
  case (Inr batches)
  with assms(2) have "upsert_loop srv self batches log = (r, log')"
    by (simp add: upsert_def)
  from upsert_loop_statuses[OF assms(1) this] show ?thesis .
qed

lemma delete_statuses:
  assumes "\<forall>c \<in> set log. status_code (snd c) < 300"
    and "delete srv self ids log = (r, log')"
  shows "(\<forall>c \<in> set log'. status_code (snd c) < 300) \<or> (\<exists>e. r = Inl e \<and> remote_failure e)"
  using assms by (auto simp: delete_def Let_def split: if_splits)

lemma upsert_chunks_statuses:
  assumes "\<forall>c \<in> set log. status_code (snd c) < 300"
    and "upsert_chunks srv pinecone embeddings chunks log = (r, log')"
  shows "(\<forall>c \<in> set log'. status_code (snd c) < 300) \<or> (\<exists>e. r = Inl e \<and> remote_failure e)"
proof (cases embeddings)
  case None
  with assms show ?thesis by (simp add: upsert_chunks_def)
next
  case (Some client)
  show ?thesis
  proof (cases "chunks = []")
    case True
    with Some assms show ?thesis by (simp add: upsert_chunks_def)
  next
    case False
    obtain r1 log1 where e: "embed srv client (map body chunks) log = (r1, log1)"
      by (cases "embed srv client (map body chunks) log")
    from embed_statuses[OF assms(1) e]
    have d: "(\<forall>c \<in> set log1. status_code (snd c) < 300) \<or> (\<exists>e. r1 = Inl e \<and> remote_failure e)" .
    show ?thesis
    proof (cases r1)
      case (Inl err)
      with Some False e assms(2) have "r = Inl err" "log' = log1"
        by (simp_all add: upsert_chunks_def)
      with d Inl show ?thesis by auto
    next
      case (Inr vectors)
      with d have ok1: "\<forall>c \<in> set log1. status_code (snd c) < 300" by simp
      from Inr Some False e assms(2) obtain payload where
        "upsert srv pinecone payload log1 = (r, log')"
        by (simp add: upsert_chunks_def)
      from upsert_statuses[OF ok1 this] show ?thesis .
    qed
  qed
qed

lemma sync_pinecone_statuses:
  assumes "sync_pinecone srv pinecone client refresh stale = (r, log')"
  shows "(\<forall>c \<in> set log'. status_code (snd c) < 300) \<or> (\<exists>e. r = Inl e \<and> remote_failure e)"
proof -
  obtain r1 log1 where u: "upsert_chunks srv pinecone (Some client) refresh [] = (r1, log1)"
    by (cases "upsert_chunks srv pinecone (Some client) refresh []")
  have "\<forall>c \<in> set ([] :: 'a call list). status_code (snd c) < 300" by simp
  from upsert_chunks_statuses[OF this u]
  have d: "(\<forall>c \<in> set log1. status_code (snd c) < 300) \<or> (\<exists>e. r1 = Inl e \<and> remote_failure e)" .
  show ?thesis
  proof (cases r1)
    case (Inl err)
    with u assms have "r = Inl err" "log' = log1" by (simp_all add: sync_pinecone_def)
    with d Inl show ?thesis by auto
  next
    case (Inr x)
    with d have ok1: "\<forall>c \<in> set log1. status_code (snd c) < 300" by simp
    show ?thesis
    proof (cases "stale = []")
      case True
      with Inr u assms ok1 show ?thesis by (simp add: sync_pinecone_def)
    next
      case False
      with Inr u assms have "delete srv pinecone stale log1 = (r, log')"
        by (simp add: sync_pinecone_def)
      from delete_statuses[OF ok1 this] show ?thesis .
    qed
  qed
qed

text \<open>
  C2. When a remote embedding, upsert or delete request of a run gets a response whose
  status is 300 or more (the test the code makes), the run ends with the error of a
  failed remote request and the store is what it was before the run: \<open>persist_sqlite\<close>
  is reached only when no remote call failed.
\<close>

theorem main_remote_failure_keeps_store:
  assumes "\<exists>c \<in> set (calls (main a ev H srv now data_dir st)). 300 \<le> status_code (snd c)"
  shows "(\<exists>e. outcome (main a ev H srv now data_dir st) = Inl e \<and> remote_failure e)
         \<and> store_after (main a ev H srv now data_dir st) = st"
proof -
  let ?run = "main a ev H srv now data_dir st"
  from assms have ne: "calls ?run \<noteq> []" by auto
  then obtain chunks where bc:
    "build_chunks H data_dir (args_chunk_size a) (args_chunk_overlap a) = Inr chunks"
    and cfg: "\<not> (\<not> truthy (OPENAI_API_KEY ev) \<and> \<not> args_skip_pinecone a)"
      "\<not> (\<not> args_skip_pinecone a \<and> \<not> truthy (PINECONE_API_KEY ev))"
      "\<not> (\<not> args_skip_pinecone a \<and> \<not> truthy (args_pinecone_host a))"
    by (auto simp: main_def aborted_def split: if_splits sum.splits)
  from ne bc cfg have ns: "\<not> args_skip_pinecone a"
    by (auto simp: main_def aborted_def Let_def split: prod.splits)
  let ?sync = "sync_pinecone srv
        \<lparr>namespace = args_pinecone_namespace a, batch_size = args_pinecone_batch_size a\<rparr>
        \<lparr>emb_model = args_embedding_model a, emb_batch_size = 32\<rparr>
        (to_refresh (load_existing_rows st) chunks) (to_delete (load_existing_rows st) chunks)"
  obtain r log where s: "?sync = (r, log)" by (cases ?sync)
  from bc cfg ns s have c: "calls ?run = log"
    by (auto simp: main_def aborted_def Let_def split: prod.splits sum.splits)
  with assms sync_pinecone_statuses[OF s] obtain e where e: "r = Inl e" "remote_failure e"
    by force
  with bc cfg ns s show ?thesis
    by (auto simp: main_def aborted_def Let_def)
qed

text \<open>
  A run over one file, against a store with one older row: the embedding request
  succeeds, the upsert request gets status 500. The identity stands for the hash, and a
  vector is the length of its text.
\<close>

theorem main_remote_failure_keeps_store_witness:
  "calls (main
     \<lparr>args_pinecone_host = Some ''https://index.example'', args_pinecone_namespace = None,
      args_pinecone_batch_size = 32, args_chunk_size = 900, args_chunk_overlap = 150,
      args_skip_pinecone = False, args_embedding_model = ''m''\<rparr>
     \<lparr>OPENAI_API_KEY = Some ''k1'', PINECONE_API_KEY = Some ''k2''\<rparr>
     (\<lambda>text. text)
     (\<lambda>log rq. case rq of
                  EmbeddingsRequest m batch \<Rightarrow> \<lparr>status_code = 200, data = Some (map length batch)\<rparr>
                | _ \<Rightarrow> \<lparr>status_code = 500, data = None\<rparr>)
     ''2026-11-03T00:00:00+00:00''
     (Some [(''a.json'', Some (JScalar (SStr ''x'')))])
     (Some [\<lparr>row_id = ''old:1'', row_source = ''old.json'', row_topic = ''t'', row_body = ''b'',
             row_checksum = ''h'', row_updated_at = ''2026-11-02T00:00:00+00:00''\<rparr>]))
   = [(EmbeddingsRequest ''m'' [''Source: a'' @ [CHR 0x0A, CHR 0x0A] @ ''x''],
       \<lparr>status_code = 200, data = Some [12]\<rparr>),
      (UpsertRequest
         [\<lparr>vec_id = ''a-all:1'', vec_values = 12,
           vec_metadata = \<lparr>md_source = ''a.json'', md_topic = ''a'',
                           md_checksum = ''Source: a'' @ [CHR 0x0A, CHR 0x0A] @ ''x''\<rparr>\<rparr>]
         None,
       \<lparr>status_code = 500, data = None\<rparr>)]
   \<and> outcome (main
     \<lparr>args_pinecone_host = Some ''https://index.example'', args_pinecone_namespace = None,
      args_pinecone_batch_size = 32, args_chunk_size = 900, args_chunk_overlap = 150,
      args_skip_pinecone = False, args_embedding_model = ''m''\<rparr>
     \<lparr>OPENAI_API_KEY = Some ''k1'', PINECONE_API_KEY = Some ''k2''\<rparr>
     (\<lambda>text. text)
     (\<lambda>log rq. case rq of
                  EmbeddingsRequest m batch \<Rightarrow> \<lparr>status_code = 200, data = Some (map length batch)\<rparr>
                | _ \<Rightarrow> \<lparr>status_code = 500, data = None\<rparr>)
     ''2026-11-03T00:00:00+00:00''
     (Some [(''a.json'', Some (JScalar (SStr ''x'')))])
     (Some [\<lparr>row_id = ''old:1'', row_source = ''old.json'', row_topic = ''t'', row_body = ''b'',
             row_checksum = ''h'', row_updated_at = ''2026-11-02T00:00:00+00:00''\<rparr>]))
   = Inl (UpsertFailed 500)
   \<and> store_after (main
     \<lparr>args_pinecone_host = Some ''https://index.example'', args_pinecone_namespace = None,
      args_pinecone_batch_size = 32, args_chunk_size = 900, args_chunk_overlap = 150,
      args_skip_pinecone = False, args_embedding_model = ''m''\<rparr>
     \<lparr>OPENAI_API_KEY = Some ''k1'', PINECONE_API_KEY = Some ''k2''\<rparr>
     (\<lambda>text. text)
     (\<lambda>log rq. case rq of
                  EmbeddingsRequest m batch \<Rightarrow> \<lparr>status_code = 200, data = Some (map length batch)\<rparr>
                | _ \<Rightarrow> \<lparr>status_code = 500, data = None\<rparr>)
     ''2026-11-03T00:00:00+00:00''
     (Some [(''a.json'', Some (JScalar (SStr ''x'')))])
     (Some [\<lparr>row_id = ''old:1'', row_source = ''old.json'', row_topic = ''t'', row_body = ''b'',
             row_checksum = ''h'', row_updated_at = ''2026-11-02T00:00:00+00:00''\<rparr>]))
   = Some [\<lparr>row_id = ''old:1'', row_source = ''old.json'', row_topic = ''t'', row_body = ''b'',
             row_checksum = ''h'', row_updated_at = ''2026-11-02T00:00:00+00:00''\<rparr>]"
  (is "calls ?run = ?log \<and> outcome ?run = ?err \<and> store_after ?run = ?st")
proof -
  have c: "calls ?run = ?log" by code_simp
  have o: "outcome ?run = ?err" by code_simp
  have h: "\<exists>c \<in> set (calls ?run). 300 \<le> status_code (snd c)"
    unfolding c by simp
  from main_remote_failure_keeps_store[OF h] c o show ?thesis by simp
qed

section \<open>Idempotence\<close>

lemma main_completed:
  assumes "outcome (main a ev H srv now data_dir st) = Inr ()"
  shows "\<exists>chunks. build_chunks H data_dir (args_chunk_size a) (args_chunk_overlap a) = Inr chunks
           \<and> distinct (map chunk_id chunks)
           \<and> store_after (main a ev H srv now data_dir st) = Some (map (row_of now) chunks)"
proof -
  from assms obtain chunks where bc:
    "build_chunks H data_dir (args_chunk_size a) (args_chunk_overlap a) = Inr chunks"
    and cfg: "\<not> (\<not> truthy (OPENAI_API_KEY ev) \<and> \<not> args_skip_pinecone a)"
      "\<not> (\<not> args_skip_pinecone a \<and> \<not> truthy (PINECONE_API_KEY ev))"
      "\<not> (\<not> args_skip_pinecone a \<and> \<not> truthy (args_pinecone_host a))"
    by (auto simp: main_def aborted_def split: if_splits sum.splits)
  obtain res st' where p: "persist_sqlite now st chunks = (res, st')"
    by (cases "persist_sqlite now st chunks")
  from assms bc cfg p have "res = Inr ()" "store_after (main a ev H srv now data_dir st) = st'"
    by (auto simp: main_def aborted_def Let_def split: prod.splits sum.splits if_splits)
  with p bc show ?thesis by (auto simp: persist_sqlite_ok)
qed

lemma diff_after_persist:
  assumes "distinct (map chunk_id chunks)"
  shows "to_refresh (load_existing_rows (Some (map (row_of now) chunks))) chunks = []"
    and "to_delete (load_existing_rows (Some (map (row_of now) chunks))) chunks = []"
proof -
  let ?pairs = "map (\<lambda>c. (chunk_id c, checksum c)) chunks"
  have l: "load_existing_rows (Some (map (row_of now) chunks)) = ?pairs"
    by (rule load_persisted[OF assms])
  have "map_of ?pairs (chunk_id c) = Some (checksum c)" if "c \<in> set chunks" for c
  proof (rule map_of_is_SomeI)
    show "distinct (map fst ?pairs)" using assms by (simp add: comp_def)
    show "(chunk_id c, checksum c) \<in> set ?pairs" using that by auto
  qed
  then show "to_refresh (load_existing_rows (Some (map (row_of now) chunks))) chunks = []"
    unfolding l by (simp add: to_refresh_def)
  have "set (map fst ?pairs) - set (map chunk_id chunks) = {}" by (simp add: comp_def)
  then show "to_delete (load_existing_rows (Some (map (row_of now) chunks))) chunks = []"
    unfolding l to_delete_def by simp
qed

lemma main_empty_diff_no_calls:
  assumes "build_chunks H data_dir (args_chunk_size a) (args_chunk_overlap a) = Inr chunks"
    and "to_refresh (load_existing_rows st) chunks = []"
    and "to_delete (load_existing_rows st) chunks = []"
  shows "calls (main a ev H srv now data_dir st) = []"
  using assms
  by (auto simp: main_def aborted_def Let_def sync_pinecone_def upsert_chunks_def
      split: prod.splits sum.splits)

text \<open>
  C1. When a run completes (its outcome is success, so the store holds the rows of the
  fresh chunks), a second run over the same directory with the same hash, chunk size and
  overlap, whatever its other arguments, environment, services and clock, computes the
  same chunks, an empty \<open>to_refresh\<close> and an empty \<open>to_delete\<close> against the store the
  first run left, and makes no remote call.
\<close>

theorem main_idempotent:
  assumes "outcome (main a ev H srv now data_dir st) = Inr ()"
    and "args_chunk_size a' = args_chunk_size a"
    and "args_chunk_overlap a' = args_chunk_overlap a"
  shows "\<exists>chunks.
           build_chunks H data_dir (args_chunk_size a') (args_chunk_overlap a') = Inr chunks
         \<and> to_refresh (load_existing_rows (store_after (main a ev H srv now data_dir st))) chunks = []
         \<and> to_delete (load_existing_rows (store_after (main a ev H srv now data_dir st))) chunks = []
         \<and> calls (main a' ev' H srv' now' data_dir (store_after (main a ev H srv now data_dir st))) = []"
proof -
  from main_completed[OF assms(1)] obtain chunks where
    bc: "build_chunks H data_dir (args_chunk_size a) (args_chunk_overlap a) = Inr chunks"
    and d: "distinct (map chunk_id chunks)"
    and s: "store_after (main a ev H srv now data_dir st) = Some (map (row_of now) chunks)"
    by blast
  from bc assms(2,3) have bc':
    "build_chunks H data_dir (args_chunk_size a') (args_chunk_overlap a') = Inr chunks"
    by simp
  note e = diff_after_persist[OF d, of now]
  from main_empty_diff_no_calls[OF bc' e]
  have "calls (main a' ev' H srv' now' data_dir (Some (map (row_of now) chunks))) = []" .
  with bc' e s show ?thesis by simp
qed

text \<open>
  A first run over one file that completes, and a second run over the same file with
  another namespace, batch size and clock, and services that would answer 500: it makes
  no call. The identity stands for the hash.
\<close>

theorem main_idempotent_witness:
  "outcome (main
     \<lparr>args_pinecone_host = Some ''https://index.example'', args_pinecone_namespace = None,
      args_pinecone_batch_size = 32, args_chunk_size = 900, args_chunk_overlap = 150,
      args_skip_pinecone = False, args_embedding_model = ''text-embedding-3-small''\<rparr>
     \<lparr>OPENAI_API_KEY = Some ''k1'', PINECONE_API_KEY = Some ''k2''\<rparr>
     (\<lambda>text. text)
     (\<lambda>log rq. \<lparr>status_code = 200,
                 data = (case rq of EmbeddingsRequest m batch \<Rightarrow> Some (map length batch)
                         | _ \<Rightarrow> None)\<rparr>)
     ''2026-11-03T00:00:00+00:00''
     (Some [(''faq.json'', Some (JList [JDict [(''question'', JScalar (SStr ''What is X?''))]]))])
     None) = Inr ()
   \<and> calls (main
     \<lparr>args_pinecone_host = Some ''https://index.example'', args_pinecone_namespace = Some ''site'',
      args_pinecone_batch_size = 8, args_chunk_size = 900, args_chunk_overlap = 150,
      args_skip_pinecone = False, args_embedding_model = ''text-embedding-3-small''\<rparr>
     \<lparr>OPENAI_API_KEY = Some ''k1'', PINECONE_API_KEY = Some ''k2''\<rparr>
     (\<lambda>text. text)
     (\<lambda>log rq. \<lparr>status_code = 500, data = None :: nat list option\<rparr>)
     ''2026-11-04T00:00:00+00:00''
     (Some [(''faq.json'', Some (JList [JDict [(''question'', JScalar (SStr ''What is X?''))]]))])
     (store_after (main
       \<lparr>args_pinecone_host = Some ''https://index.example'', args_pinecone_namespace = None,
        args_pinecone_batch_size = 32, args_chunk_size = 900, args_chunk_overlap = 150,
        args_skip_pinecone = False, args_embedding_model = ''text-embedding-3-small''\<rparr>
       \<lparr>OPENAI_API_KEY = Some ''k1'', PINECONE_API_KEY = Some ''k2''\<rparr>
       (\<lambda>text. text)
       (\<lambda>log rq. \<lparr>status_code = 200,
                   data = (case rq of EmbeddingsRequest m batch \<Rightarrow> Some (map length batch)
                           | _ \<Rightarrow> None)\<rparr>)
       ''2026-11-03T00:00:00+00:00''
       (Some [(''faq.json'', Some (JList [JDict [(''question'', JScalar (SStr ''What is X?''))]]))])
       None))) = []"
  (is "outcome ?run1 = Inr () \<and> calls (main ?a' ?ev' _ ?srv' ?now' ?dir _) = []")
proof -
  have h: "outcome (main
     \<lparr>args_pinecone_host = Some ''https://index.example'', args_pinecone_namespace = None,
      args_pinecone_batch_size = 32, args_chunk_size = 900, args_chunk_overlap = 150,
      args_skip_pinecone = False, args_embedding_model = ''text-embedding-3-small''\<rparr>
     \<lparr>OPENAI_API_KEY = Some ''k1'', PINECONE_API_KEY = Some ''k2''\<rparr>
     (\<lambda>text. text)
     (\<lambda>log rq. \<lparr>status_code = 200,
                 data = (case rq of EmbeddingsRequest m batch \<Rightarrow> Some (map length batch)
                         | _ \<Rightarrow> None)\<rparr>)
     ''2026-11-03T00:00:00+00:00''
     (Some [(''faq.json'', Some (JList [JDict [(''question'', JScalar (SStr ''What is X?''))]]))])
     None) = Inr ()"
    by code_simp
  have "\<exists>chunks.
      build_chunks (\<lambda>text. text)
        (Some [(''faq.json'', Some (JList [JDict [(''question'', JScalar (SStr ''What is X?''))]]))])
        (args_chunk_size ?a') (args_chunk_overlap ?a') = Inr chunks
    \<and> to_refresh (load_existing_rows (store_after ?run1)) chunks = []
    \<and> to_delete (load_existing_rows (store_after ?run1)) chunks = []
    \<and> calls (main ?a' ?ev' (\<lambda>text. text) ?srv' ?now' ?dir (store_after ?run1)) = []"
    by (rule main_idempotent[OF h]) simp_all
  then have "calls (main ?a' ?ev' (\<lambda>text. text) ?srv' ?now' ?dir (store_after ?run1)) = []"
    by blast
  with h show ?thesis by simp
qed

end
